theory Spec2Isabelle
  imports Main "HOL-Library.Sublist" "HOL-Library.Multiset" "HOL-Library.Char_ord"
    "HOL-Library.List_Lexorder"
begin

section \<open>The tool catalog (installer.go)\<close>

text \<open>
  \<^verbatim>\<open>type toolID string\<close>: a tool identifier is a string.  The fifteen constants of the
  catalog are abbreviations of their string values.
\<close>

type_synonym toolID = string

abbreviation toolXcode :: toolID where "toolXcode \<equiv> ''xcode''"
abbreviation toolHomebrew :: toolID where "toolHomebrew \<equiv> ''homebrew''"
abbreviation toolPyenv :: toolID where "toolPyenv \<equiv> ''pyenv''"
abbreviation toolPython313 :: toolID where "toolPython313 \<equiv> ''python313''"
abbreviation toolPython396 :: toolID where "toolPython396 \<equiv> ''python396''"
abbreviation toolPyenvVenvNCP :: toolID where "toolPyenvVenvNCP \<equiv> ''pyenv_venv_ncpcli''"
abbreviation toolITerm2 :: toolID where "toolITerm2 \<equiv> ''iterm2''"
abbreviation toolAllProxy :: toolID where "toolAllProxy \<equiv> ''allproxy''"
abbreviation toolSpartaPKI :: toolID where "toolSpartaPKI \<equiv> ''sparta_pki''"
abbreviation toolHopsCLI :: toolID where "toolHopsCLI \<equiv> ''hops_cli''"
abbreviation toolGNOCHelper :: toolID where "toolGNOCHelper \<equiv> ''gnoc_helper''"
abbreviation toolStencil :: toolID where "toolStencil \<equiv> ''stencil''"
abbreviation toolSilencer :: toolID where "toolSilencer \<equiv> ''silencer''"
abbreviation toolNCPCLI :: toolID where "toolNCPCLI \<equiv> ''ncpcli''"
abbreviation toolJITPass :: toolID where "toolJITPass \<equiv> ''jit_pass''"

text \<open>
  A dependency graph is a Go map literal \<^verbatim>\<open>map[toolID][]toolID\<close>: finitely many keys, each
  with its slice of prerequisites.  It is kept as the list of its entries; a lookup of a
  key that is absent yields the nil slice, over which a \<^verbatim>\<open>range\<close> loop does not iterate.
\<close>

type_synonym 'a depgraph = "('a \<times> 'a list) list"

definition depsOf :: "'a depgraph \<Rightarrow> 'a \<Rightarrow> 'a list" where
  "depsOf g t = (case map_of g t of None \<Rightarrow> [] | Some ds \<Rightarrow> ds)"

definition depMap :: "toolID depgraph" where
  "depMap =
    [(toolXcode, []),
     (toolHomebrew, [toolXcode]),
     (toolPyenv, [toolHomebrew]),
     (toolPython313, [toolPyenv]),
     (toolPython396, [toolPyenv]),
     (toolPyenvVenvNCP, [toolPython396]),
     (toolITerm2, []),
     (toolAllProxy, [toolPython313, toolHomebrew]),
     (toolSpartaPKI, []),
     (toolHopsCLI, [toolPython313, toolSpartaPKI]),
     (toolGNOCHelper, [toolPyenvVenvNCP, toolAllProxy]),
     (toolStencil, [toolPyenvVenvNCP]),
     (toolSilencer, []),
     (toolNCPCLI, [toolPyenvVenvNCP]),
     (toolJITPass, [])]"

text \<open>\<^verbatim>\<open>validToolIDs\<close> maps the names accepted by \<^verbatim>\<open>--only\<close> to tool identifiers.\<close>

definition validToolIDList :: "(string \<times> toolID) list" where
  "validToolIDList =
    [(''xcode'', toolXcode),
     (''homebrew'', toolHomebrew),
     (''pyenv'', toolPyenv),
     (''python313'', toolPython313),
     (''python396'', toolPython396),
     (''pyenv_venv_ncpcli'', toolPyenvVenvNCP),
     (''iterm2'', toolITerm2),
     (''allproxy'', toolAllProxy),
     (''sparta_pki'', toolSpartaPKI),
     (''hops_cli'', toolHopsCLI),
     (''gnoc_helper'', toolGNOCHelper),
     (''stencil'', toolStencil),
     (''silencer'', toolSilencer),
     (''ncpcli'', toolNCPCLI),
     (''jit_pass'', toolJITPass)]"

definition validToolIDs :: "string \<rightharpoonup> toolID" where
  "validToolIDs = map_of validToolIDList"

text \<open>
  \<^verbatim>\<open>phase1Tools\<close> is a \<^verbatim>\<open>map[toolID]bool\<close> whose seven keys all map to true; a lookup of
  any other key yields false.
\<close>

definition phase1Tools :: "toolID \<Rightarrow> bool" where
  "phase1Tools t \<longleftrightarrow>
     t \<in> set [toolITerm2, toolXcode, toolHomebrew, toolPyenv, toolPython313,
               toolPython396, toolPyenvVenvNCP]"

section \<open>The dependency resolver (installer.go, resolveTools)\<close>

text \<open>
  The closure \<^verbatim>\<open>visit\<close> of \<^verbatim>\<open>resolveTools\<close> updates two captured variables, the map
  \<^verbatim>\<open>visited\<close> and the slice \<^verbatim>\<open>order\<close>.  They are the two fields of the state that the
  model passes along.  \<open>visitEach\<close> is the loop \<^verbatim>\<open>for _, t := range ts { visit(t) }\<close>, which
  the source runs over the prerequisites of a tool and over the requested tools.
\<close>

record 'a resolver =
  visited :: "'a set"
  order :: "'a list"

function visit :: "'a depgraph \<Rightarrow> 'a \<Rightarrow> 'a resolver \<Rightarrow> 'a resolver"
  and visitEach :: "'a depgraph \<Rightarrow> 'a list \<Rightarrow> 'a resolver \<Rightarrow> 'a resolver" where
  "visit g t s =
     (if t \<in> visited s then s
      else (let s' = visitEach g (depsOf g t) (s\<lparr>visited := insert t (visited s)\<rparr>)
            in s'\<lparr>order := order s' @ [t]\<rparr>))"
| "visitEach g [] s = s"
| "visitEach g (t # ts) s = visitEach g ts (visit g t s)"
  by pat_completeness auto

text \<open>
  The recursion is nested: the state of the next iteration is the result of a call.  Its
  termination rests on the visited set only growing, which is shown first on the domain
  of the function.  A tool is marked before its prerequisites are visited, so each key of
  the graph is expanded at most once, whether or not the graph has a cycle.
\<close>

lemma visited_grows_dom:
  "visit_visitEach_dom (Inl (g, t, s)) \<Longrightarrow> visited s \<subseteq> visited (visit g t s)"
  "visit_visitEach_dom (Inr (g, ts, s)) \<Longrightarrow> visited s \<subseteq> visited (visitEach g ts s)"
proof (induction g t s and g ts s rule: visit_visitEach.pinduct)
  case (1 g t s)
  then show ?case by (auto simp: visit.psimps Let_def)
next
  case (2 g s)
  then show ?case by (simp add: visitEach.psimps)
next
  case (3 g t ts s)
  then show ?case by (auto simp: visitEach.psimps)
qed

termination visit
proof (relation "inv_image (less_than <*lex*> less_than)
    (\<lambda>x. case x of
        Inl (g, t, s) \<Rightarrow> (card (fst ` set g - visited s), 1::nat)
      | Inr (g, ts, s) \<Rightarrow> (card (fst ` set g - visited s), 2 * length ts))", goal_cases)
  case 1
  show ?case by (intro wf_inv_image wf_lex_prod wf_less_than)
next
  case (2 g t s)
  show ?case
  proof (cases "t \<in> fst ` set g")
    case True
    with 2 have "card (fst ` set g - insert t (visited s)) < card (fst ` set g - visited s)"
      by (intro psubset_card_mono) auto
    then show ?thesis by simp
  next
    case False
    then have "map_of g t = None" by (simp add: map_of_eq_None_iff)
    then have "depsOf g t = []" by (simp add: depsOf_def)
    moreover have "fst ` set g - insert t (visited s) = fst ` set g - visited s"
      using False by auto
    ultimately show ?thesis by simp
  qed
next
  case (3 g t ts s)
  then show ?case by simp
next
  case (4 g t ts s)
  from 4 have "visited s \<subseteq> visited (visit g t s)" by (rule visited_grows_dom(1))
  then have "card (fst ` set g - visited (visit g t s)) \<le> card (fst ` set g - visited s)"
    by (intro card_mono) auto
  then show ?case by auto
qed

declare visit.simps [simp del]

definition resolveWith :: "'a depgraph \<Rightarrow> 'a list \<Rightarrow> 'a list" where
  "resolveWith g requested = order (visitEach g requested \<lparr>visited = {}, order = []\<rparr>)"

text \<open>\<^verbatim>\<open>resolveTools\<close> reads the package-level \<^verbatim>\<open>depMap\<close>.\<close>

definition resolveTools :: "toolID list \<Rightarrow> toolID list" where
  "resolveTools requested = resolveWith depMap requested"

section \<open>The phase split (main.go, main)\<close>

text \<open>
  \<^verbatim>\<open>main\<close> walks the resolved tools once and appends each to \<^verbatim>\<open>p1\<close> when
  \<^verbatim>\<open>phase1Tools[t]\<close> holds and to \<^verbatim>\<open>p3\<close> otherwise.  \<open>splitPhases\<close> is that loop with its
  two accumulators; \<open>classify\<close> starts it from the two nil slices.
\<close>

fun splitPhases :: "toolID list \<Rightarrow> toolID list \<times> toolID list \<Rightarrow> toolID list \<times> toolID list" where
  "splitPhases [] (p1, p3) = (p1, p3)"
| "splitPhases (t # ts) (p1, p3) =
     (if phase1Tools t then splitPhases ts (p1 @ [t], p3) else splitPhases ts (p1, p3 @ [t]))"

definition classify :: "toolID list \<Rightarrow> toolID list \<times> toolID list" where
  "classify tools = splitPhases tools ([], [])"


section \<open>Specification vocabulary for the resolver\<close>

text \<open>
  \<open>prereq g\<close> is the edge relation of the graph: \<open>(t, d)\<close> is an edge when \<open>d\<close> is a declared
  prerequisite of \<open>t\<close>.  \<open>dependencyOrdered g xs\<close> says that every element of \<open>xs\<close> has all
  its declared prerequisites strictly earlier in \<open>xs\<close>.
\<close>

definition prereq :: "'a depgraph \<Rightarrow> ('a \<times> 'a) set" where
  "prereq g = {(t, d). d \<in> set (depsOf g t)}"

fun prereqsPlaced :: "'a depgraph \<Rightarrow> 'a list \<Rightarrow> 'a list \<Rightarrow> bool" where
  "prereqsPlaced g seen [] = True"
| "prereqsPlaced g seen (t # ts) = (set (depsOf g t) \<subseteq> set seen \<and> prereqsPlaced g (seen @ [t]) ts)"

definition dependencyOrdered :: "'a depgraph \<Rightarrow> 'a list \<Rightarrow> bool" where
  "dependencyOrdered g xs = prereqsPlaced g [] xs"


text \<open>
  The invariant of the traversal.  \<open>ready\<close> is what holds of the state before a visit of the
  tools \<open>T\<close>: the output so far is ordered and duplicate-free, everything in it is marked,
  and no tool of \<open>T\<close> reaches a tool that is marked but not yet appended (a tool whose visit
  is still running).  \<open>extends\<close> is what the visit adds.
\<close>

definition ready :: "'a depgraph \<Rightarrow> 'a resolver \<Rightarrow> 'a set \<Rightarrow> bool" where
  "ready g s T \<longleftrightarrow>
     dependencyOrdered g (order s) \<and> set (order s) \<subseteq> visited s \<and> distinct (order s) \<and>
     (\<forall>t\<in>T. \<forall>x\<in>visited s - set (order s). (t, x) \<notin> (prereq g)\<^sup>*)"

definition extends :: "'a depgraph \<Rightarrow> 'a resolver \<Rightarrow> 'a resolver \<Rightarrow> 'a set \<Rightarrow> bool" where
  "extends g s s' T \<longleftrightarrow>
     (\<exists>new. order s' = order s @ new \<and> visited s' = visited s \<union> set new \<and> distinct new \<and>
        set new \<inter> visited s = {} \<and> dependencyOrdered g (order s') \<and>
        set (order s') = set (order s) \<union> (prereq g)\<^sup>* `` T)"


section \<open>Strings (package strings)\<close>

text \<open>\<^verbatim>\<open>strings.Contains(s, substr)\<close>: \<open>substr\<close> starts at some position of \<open>s\<close>.\<close>

fun strContains :: "string \<Rightarrow> string \<Rightarrow> bool" where
  "strContains [] sub = (sub = [])"
| "strContains (c # cs) sub = (prefix sub (c # cs) \<or> strContains cs sub)"

text \<open>The number of positions of \<open>s\<close> at which \<open>sub\<close> starts.\<close>

fun occurrences :: "string \<Rightarrow> string \<Rightarrow> nat" where
  "occurrences [] sub = (if sub = [] then 1 else 0)"
| "occurrences (c # cs) sub = (if prefix sub (c # cs) then 1 else 0) + occurrences cs sub"

abbreviation newline :: string where "newline \<equiv> [CHR 0x0A]"
abbreviation dquote :: string where "dquote \<equiv> [CHR 0x22]"

text \<open>
  \<^verbatim>\<open>strings.TrimSpace\<close> removes leading and trailing white space as Unicode defines it.  A Go
  string is a sequence of bytes holding UTF-8; \<open>spaceRunes\<close> lists the UTF-8 encodings of
  the white-space code points (U+0009 to U+000D, U+0020, U+0085, U+00A0, U+1680, U+2000 to
  U+200A, U+2028, U+2029, U+202F, U+205F, U+3000).
\<close>

definition spaceRunes :: "string list" where
  "spaceRunes =
    [[CHR 0x20], [CHR 0x09], [CHR 0x0A], [CHR 0x0B], [CHR 0x0C], [CHR 0x0D],
     [CHR 0xC2, CHR 0x85], [CHR 0xC2, CHR 0xA0], [CHR 0xE1, CHR 0x9A, CHR 0x80],
     [CHR 0xE2, CHR 0x80, CHR 0x80], [CHR 0xE2, CHR 0x80, CHR 0x81], [CHR 0xE2, CHR 0x80, CHR 0x82],
     [CHR 0xE2, CHR 0x80, CHR 0x83], [CHR 0xE2, CHR 0x80, CHR 0x84], [CHR 0xE2, CHR 0x80, CHR 0x85],
     [CHR 0xE2, CHR 0x80, CHR 0x86], [CHR 0xE2, CHR 0x80, CHR 0x87], [CHR 0xE2, CHR 0x80, CHR 0x88],
     [CHR 0xE2, CHR 0x80, CHR 0x89], [CHR 0xE2, CHR 0x80, CHR 0x8A], [CHR 0xE2, CHR 0x80, CHR 0xA8],
     [CHR 0xE2, CHR 0x80, CHR 0xA9], [CHR 0xE2, CHR 0x80, CHR 0xAF], [CHR 0xE2, CHR 0x81, CHR 0x9F],
     [CHR 0xE3, CHR 0x80, CHR 0x80]]"

text \<open>\<open>dropLeading ps s\<close> drops from the front of \<open>s\<close> as long as one of \<open>ps\<close> starts it.\<close>

function dropLeading :: "string list \<Rightarrow> string \<Rightarrow> string" where
  "dropLeading ps s =
     (case find (\<lambda>p. p \<noteq> [] \<and> prefix p s) ps of
        None \<Rightarrow> s
      | Some p \<Rightarrow> dropLeading ps (drop (length p) s))"
  by pat_completeness auto
termination dropLeading
proof (relation "measure (\<lambda>(ps, s). length s)", goal_cases)
  case 1
  show ?case by simp
next
  case (2 ps s p)
  then have "p \<noteq> []" and "prefix p s" by (auto simp: find_Some_iff)
  then show ?case by (cases s) (auto simp: prefix_def)
qed

declare dropLeading.simps [simp del]

definition TrimSpace :: "string \<Rightarrow> string" where
  "TrimSpace s = rev (dropLeading (map rev spaceRunes) (rev (dropLeading spaceRunes s)))"

text \<open>\<^verbatim>\<open>strings.Split(s, sep)\<close> for a one-byte separator: one piece more than separators.\<close>

fun splitOn :: "char \<Rightarrow> string \<Rightarrow> string list" where
  "splitOn sep [] = [[]]"
| "splitOn sep (c # cs) =
     (if c = sep then [] # splitOn sep cs
      else (case splitOn sep cs of [] \<Rightarrow> [[c]] | p # ps \<Rightarrow> (c # p) # ps))"

text \<open>\<^verbatim>\<open>strings.Join(args, " ")\<close>.\<close>

fun joinSp :: "string list \<Rightarrow> string" where
  "joinSp [] = []"
| "joinSp [a] = a"
| "joinSp (a # b # rest) = a @ '' '' @ joinSp (b # rest)"

section \<open>The process and the workstation\<close>

text \<open>
  A log record (logger.go); the time stamp and the optional field map are left out.
\<close>

datatype logLevel = logINFO | logWARN | logERROR

record logEntry =
  Level :: logLevel
  Phase :: string
  Step :: string
  Message :: string

text \<open>\<^verbatim>\<open>runState\<close>: the completed tools with their completion time; the map may be nil.\<close>

record runState =
  CompletedTools :: "(string \<rightharpoonup> string) option"

text \<open>
  Go errors.  \<open>OSError\<close> is an error that a system call or an external command returned,
  \<open>Failure\<close> one that the program made with \<^verbatim>\<open>fmt.Errorf\<close> (its text abbreviated),
  \<open>UnknownTool\<close> the default case of \<^verbatim>\<open>runTool\<close>, \<open>ToolFailed\<close> the wrapping that
  \<^verbatim>\<open>runPhase\<close> puts around the error of a tool.
\<close>

datatype error =
    OSError string
  | Failure string
  | UnknownTool toolID
  | ToolFailed toolID error

text \<open>What the process writes to standard error.\<close>

datatype report =
    UnknownToolReport string
  | NoValidToolIDs
  | FatalReport string
  | ErrorReport string
  | LoggerInitFailed

text \<open>
  The state that the functions below pass along.  The first six fields are the
  package-level variables of the process (\<^verbatim>\<open>dryRun\<close>, \<^verbatim>\<open>forceReinstall\<close>,
  \<^verbatim>\<open>stateData\<close>, the open log encoder and the phase of \<^verbatim>\<open>log\<close>,
  \<^verbatim>\<open>cachedSSHPublicKey\<close>).  The next six are the workstation: the content of
  \<^verbatim>\<open>~/.zshrc\<close> (\<open>None\<close> when the file is absent) and whether it can be opened for
  appending, the persisted Run State \<^verbatim>\<open>~/.chs-onboard/state.json\<close> and whether it can be
  written, the records of \<^verbatim>\<open>~/.chs-onboard/run.log\<close>, and \<open>machine\<close>, everything else
  (other files, installed software), which only external commands and installers change.
  The last three are histories kept for the statements: the tools whose installer was
  entered, the external commands that were started, and the lines on standard error.
  Output on standard output is not modelled.
\<close>

record 'm world =
  dryRun :: bool
  forceReinstall :: bool
  stateData :: "runState option"
  logOpen :: bool
  logPhase :: string
  cachedSSHPublicKey :: string
  zshrc :: "string option"
  zshrcWritable :: bool
  stateFile :: "runState option"
  stateWritable :: bool
  runLog :: "logEntry list"
  machine :: 'm
  dispatched :: "toolID list"
  execd :: "string list list"
  stderr :: "report list"

text \<open>
  What the process asks of its surroundings.  \<open>osExec argv env m\<close> runs an external command
  on the machine (\<open>env = None\<close>: the environment of the process) and yields whether it
  succeeded, its output, and the machine after it.  \<open>pathExists\<close> and \<open>readFile\<close> are
  \<^verbatim>\<open>os.Stat\<close> and \<^verbatim>\<open>os.ReadFile\<close> on the machine.  \<open>publicInternet k\<close> is the outcome of
  the \<open>k\<close>-th reachability check of \<^verbatim>\<open>checkPublicInternet\<close>, \<open>dial n h\<close> whether the TCP
  connection to host \<open>h\<close> succeeds in polling round \<open>n\<close>.  \<open>uiPrompt\<close>,
  \<open>uiChooseFromList\<close> and \<open>uiShowSSHKey\<close> are the operator's answers to the dialogs
  (\<open>None\<close>: the dialog failed or was cancelled).  \<open>installer t guid\<close> is the body of the
  installer of tool \<open>t\<close>: it acts on \<^verbatim>\<open>~/.zshrc\<close> and on the machine.  \<open>pmsetValue key
  out\<close> is the submatch of the regular expression of \<^verbatim>\<open>firstPmsetValue\<close> in \<open>out\<close>.
  \<open>logInitOk\<close> is whether \<^verbatim>\<open>logInit\<close> can open the log; \<open>now\<close> is the clock.
\<close>

record 'm env =
  home :: string
  baseEnv :: "string list"
  osExec :: "string list \<Rightarrow> string list option \<Rightarrow> 'm \<Rightarrow> (bool \<times> string) \<times> 'm"
  pathExists :: "string \<Rightarrow> 'm \<Rightarrow> bool"
  readFile :: "string \<Rightarrow> 'm \<Rightarrow> string option"
  publicInternet :: "nat \<Rightarrow> bool"
  dial :: "nat \<Rightarrow> string \<Rightarrow> bool"
  uiPrompt :: "string \<Rightarrow> string option"
  uiChooseFromList :: "string list \<Rightarrow> string list \<Rightarrow> string list option"
  uiShowSSHKey :: "string \<Rightarrow> error option"
  installer :: "toolID \<Rightarrow> string \<Rightarrow> string option \<times> 'm \<Rightarrow> error option \<times> string option \<times> 'm"
  pmsetValue :: "string \<Rightarrow> string \<Rightarrow> string option"
  logInitOk :: bool
  now :: string

section \<open>Logging (logger.go)\<close>

text \<open>\<^verbatim>\<open>logWrite\<close> appends a record when the encoder is open and does nothing otherwise.\<close>

definition logWrite :: "logLevel \<Rightarrow> string \<Rightarrow> string \<Rightarrow> 'm world \<Rightarrow> 'm world" where
  "logWrite lv st m w =
     (if \<not> logOpen w then w
      else w\<lparr>runLog := runLog w @ [\<lparr>Level = lv, Phase = logPhase w, Step = st, Message = m\<rparr>]\<rparr>)"

definition logInfo :: "string \<Rightarrow> string \<Rightarrow> 'm world \<Rightarrow> 'm world" where
  "logInfo st m w = logWrite logINFO st m w"

definition logWarn :: "string \<Rightarrow> string \<Rightarrow> 'm world \<Rightarrow> 'm world" where
  "logWarn st m w = logWrite logWARN st m w"

definition logError :: "string \<Rightarrow> string \<Rightarrow> 'm world \<Rightarrow> 'm world" where
  "logError st m w =
     (let w' = logWrite logERROR st m w in w'\<lparr>stderr := stderr w' @ [ErrorReport m]\<rparr>)"

definition logSetPhase :: "string \<Rightarrow> 'm world \<Rightarrow> 'm world" where
  "logSetPhase p w = w\<lparr>logPhase := p\<rparr>"

definition logClose :: "'m world \<Rightarrow> 'm world" where
  "logClose w = w\<lparr>logOpen := False\<rparr>"

text \<open>
  \<^verbatim>\<open>logFatal\<close> ends the process with status 1; the model returns the status with the
  state at exit.
\<close>

definition logFatal :: "string \<Rightarrow> string \<Rightarrow> 'm world \<Rightarrow> nat \<times> 'm world" where
  "logFatal st m w =
     (let w' = logWrite logERROR st m w in (1, logClose (w'\<lparr>stderr := stderr w' @ [FatalReport m]\<rparr>)))"

fun errorText :: "error \<Rightarrow> string" where
  "errorText (OSError m) = m"
| "errorText (Failure m) = m"
| "errorText (UnknownTool t) = ''unknown tool: '' @ t"
| "errorText (ToolFailed t e) = t @ '' failed: '' @ errorText e"

section \<open>Commands and files (the execution helpers)\<close>

text \<open>
  \<^verbatim>\<open>runCmd\<close>: in dry-run mode it logs the command and returns; otherwise it starts the
  command and logs its outcome.  \<^verbatim>\<open>cmdOutput\<close> starts its command in either mode and
  ignores its failure.
\<close>

definition runCmd ::
  "'m env \<Rightarrow> string \<Rightarrow> string list option \<Rightarrow> string \<Rightarrow> string list \<Rightarrow> 'm world
     \<Rightarrow> (string \<times> error option) \<times> 'm world" where
  "runCmd E st envv name args w =
     (if dryRun w
      then (([], None), logInfo st (''DRY-RUN: would exec: '' @ name @ '' '' @ joinSp args) w)
      else
        (let envv' = (case envv of None \<Rightarrow> baseEnv E | Some e \<Rightarrow> e);
             w1 = logInfo st (''exec: '' @ name @ '' '' @ joinSp args) w;
             r = osExec E (name # args) (Some envv') (machine w1);
             w2 = w1\<lparr>machine := snd r, execd := execd w1 @ [name # args]\<rparr>;
             out = TrimSpace (snd (fst r))
         in if \<not> fst (fst r)
            then ((out, Some (OSError (name @ '' '' @ joinSp args))), logError st ''command failed'' w2)
            else ((out, None), logInfo st ''command ok'' w2)))"

definition sudoCmd ::
  "'m env \<Rightarrow> string \<Rightarrow> string list option \<Rightarrow> string \<Rightarrow> string list \<Rightarrow> 'm world
     \<Rightarrow> (string \<times> error option) \<times> 'm world" where
  "sudoCmd E st envv name args w = runCmd E st envv ''sudo'' (name # args) w"

definition cmdOutput :: "'m env \<Rightarrow> string \<Rightarrow> string list \<Rightarrow> 'm world \<Rightarrow> string \<times> 'm world" where
  "cmdOutput E name args w =
     (let r = osExec E (name # args) None (machine w)
      in (TrimSpace (snd (fst r)), w\<lparr>machine := snd r, execd := execd w @ [name # args]\<rparr>))"

text \<open>\<^verbatim>\<open>fileContains\<close> on \<^verbatim>\<open>~/.zshrc\<close>: false when the file cannot be read.\<close>

definition fileContains :: "string option \<Rightarrow> string \<Rightarrow> bool" where
  "fileContains file substr = (case file of None \<Rightarrow> False | Some data \<Rightarrow> strContains data substr)"

text \<open>
  \<^verbatim>\<open>appendToZshrc\<close>: nothing to do when the guard string is in the file; in dry-run mode
  only a log line; otherwise the file is opened for appending (created when absent), which
  can fail, and a newline, the block and a newline are written.
\<close>

definition appendToZshrc :: "string \<Rightarrow> string \<Rightarrow> 'm world \<Rightarrow> error option \<times> 'm world" where
  "appendToZshrc guardString block w =
     (if fileContains (zshrc w) guardString
      then (None, logInfo ''zshrc'' (''block already present, skipping: '' @ guardString) w)
      else if dryRun w
      then (None, logInfo ''zshrc'' (''DRY-RUN: would append block: '' @ guardString) w)
      else if \<not> zshrcWritable w then (Some (OSError ''open .zshrc''), w)
      else (None, logInfo ''zshrc'' (''appended block: '' @ guardString)
              (w\<lparr>zshrc := Some ((case zshrc w of None \<Rightarrow> [] | Some data \<Rightarrow> data)
                                    @ newline @ block @ newline)\<rparr>)))"

definition homebrewBlock :: string where
  "homebrewBlock = ''# BEGIN: Homebrew'' @ newline @
     ''eval '' @ dquote @ ''$(/opt/homebrew/bin/brew shellenv)'' @ dquote @ newline @
     ''# END: Homebrew''"

definition pyenvBlock :: string where
  "pyenvBlock = ''# BEGIN: pyenv'' @ newline @
     ''export PYENV_ROOT='' @ dquote @ ''$HOME/.pyenv'' @ dquote @ newline @
     ''export PATH='' @ dquote @ ''$PYENV_ROOT/bin:$PATH'' @ dquote @ newline @
     ''eval '' @ dquote @ ''$(pyenv init -)'' @ dquote @ newline @
     ''eval '' @ dquote @ ''$(pyenv virtualenv-init -)'' @ dquote @ newline @
     ''# END: pyenv''"

text \<open>\<^verbatim>\<open>writeBaseZshrcBlocks\<close>: the loop over the two blocks stops at the first error.\<close>

fun appendBlocks :: "(string \<times> string) list \<Rightarrow> 'm world \<Rightarrow> error option \<times> 'm world" where
  "appendBlocks [] w = (None, w)"
| "appendBlocks ((g, b) # rest) w =
     (case appendToZshrc g b w of
        (Some e, w') \<Rightarrow> (Some e, w')
      | (None, w') \<Rightarrow> appendBlocks rest w')"

definition writeBaseZshrcBlocks :: "'m world \<Rightarrow> error option \<times> 'm world" where
  "writeBaseZshrcBlocks w =
     appendBlocks [(''# BEGIN: Homebrew'', homebrewBlock), (''# BEGIN: pyenv'', pyenvBlock)] w"

text \<open>\<^verbatim>\<open>firstPmsetValue\<close> and \<^verbatim>\<open>configureNoSleepAliases\<close> (the preflight file).\<close>

definition firstPmsetValue :: "'m env \<Rightarrow> string \<Rightarrow> string \<Rightarrow> 'm world \<Rightarrow> string \<times> 'm world" where
  "firstPmsetValue E key fallback w =
     (let r = cmdOutput E ''pmset'' [''-g'', ''custom''] w
      in (case pmsetValue E key (fst r) of
            None \<Rightarrow> (fallback, snd r)
          | Some v \<Rightarrow> (if TrimSpace v = [] then fallback else TrimSpace v, snd r)))"

definition sleepBlock :: "string \<Rightarrow> string \<Rightarrow> string \<Rightarrow> string" where
  "sleepBlock sl hib dis = ''# BEGIN: Sleep Controls'' @ newline @
     ''alias ns='' @ [CHR 0x27] @ ''sudo pmset -a sleep 0; sudo pmset -a hibernatemode 0; sudo pmset -a disablesleep 1;'' @ [CHR 0x27] @ newline @
     ''alias ys='' @ [CHR 0x27] @ ''sudo pmset -a sleep '' @ sl @ ''; sudo pmset -a hibernatemode '' @ hib @
        ''; sudo pmset -a disablesleep '' @ dis @ '';'' @ [CHR 0x27] @ newline @
     ''# END: Sleep Controls''"

definition configureNoSleepAliases :: "'m env \<Rightarrow> 'm world \<Rightarrow> error option \<times> 'm world" where
  "configureNoSleepAliases E w =
     (let a = firstPmsetValue E ''sleep'' ''10'' w;
          b = firstPmsetValue E ''hibernatemode'' ''3'' (snd a);
          c = firstPmsetValue E ''disablesleep'' ''0'' (snd b)
      in appendToZshrc ''# BEGIN: Sleep Controls'' (sleepBlock (fst a) (fst b) (fst c)) (snd c))"

section \<open>Run State (the state file of main.go)\<close>

definition isToolCompleted :: "toolID \<Rightarrow> 'm world \<Rightarrow> bool" where
  "isToolCompleted t w =
     (case stateData w of
        None \<Rightarrow> False
      | Some s \<Rightarrow> (case CompletedTools s of None \<Rightarrow> False | Some m \<Rightarrow> m t \<noteq> None))"

text \<open>
  \<^verbatim>\<open>saveRunState\<close> writes the JSON of \<^verbatim>\<open>stateData\<close> to the state file or fails; the
  persisted content is kept as the value it encodes.
\<close>

definition saveRunState :: "'m world \<Rightarrow> error option \<times> 'm world" where
  "saveRunState w =
     (if \<not> stateWritable w then (Some (OSError ''write state.json''), w)
      else (None, w\<lparr>stateFile := stateData w\<rparr>))"

definition markToolCompleted :: "'m env \<Rightarrow> toolID \<Rightarrow> 'm world \<Rightarrow> error option \<times> 'm world" where
  "markToolCompleted E t w =
     (let s = (case stateData w of None \<Rightarrow> \<lparr>CompletedTools = Some Map.empty\<rparr> | Some s \<Rightarrow> s);
          m = (case CompletedTools s of None \<Rightarrow> Map.empty | Some m \<Rightarrow> m)
      in saveRunState (w\<lparr>stateData := Some (s\<lparr>CompletedTools := Some (m(t \<mapsto> now E))\<rparr>)\<rparr>))"

section \<open>The phase execution engine (runTool in installer.go, runPhase in main.go)\<close>

text \<open>The fifteen cases of the \<^verbatim>\<open>switch\<close> of \<^verbatim>\<open>runTool\<close>, in its order.\<close>

definition switchCases :: "toolID list" where
  "switchCases =
     [toolITerm2, toolXcode, toolHomebrew, toolPyenv, toolPython313, toolPython396,
      toolPyenvVenvNCP, toolAllProxy, toolSpartaPKI, toolHopsCLI, toolGNOCHelper, toolStencil,
      toolSilencer, toolNCPCLI, toolJITPass]"

text \<open>
  The \<^verbatim>\<open>switch\<close>: a tool of the catalog enters its installer, which is recorded in
  \<open>dispatched\<close>; any other identifier is the default case.
\<close>

definition dispatchTool :: "'m env \<Rightarrow> toolID \<Rightarrow> string \<Rightarrow> 'm world \<Rightarrow> error option \<times> 'm world" where
  "dispatchTool E t guid w =
     (if t \<in> set switchCases
      then (let r = installer E t guid (zshrc w, machine w)
            in (fst r, w\<lparr>zshrc := fst (snd r), machine := snd (snd r),
                          dispatched := dispatched w @ [t]\<rparr>))
      else (Some (UnknownTool t), w))"

definition runTool :: "'m env \<Rightarrow> toolID \<Rightarrow> string \<Rightarrow> 'm world \<Rightarrow> error option \<times> 'm world" where
  "runTool E t guid w =
     (let w1 = logInfo t (''installing: '' @ t) w
      in if dryRun w1 then (None, logInfo t (''dry-run mode: would install '' @ t) w1)
         else (case dispatchTool E t guid w1 of
                 (Some e, w2) \<Rightarrow> (Some e, logError t (''failed: '' @ errorText e) w2)
               | (None, w2) \<Rightarrow> (None, logInfo t ''done'' w2)))"

fun runPhase :: "'m env \<Rightarrow> toolID list \<Rightarrow> string \<Rightarrow> 'm world \<Rightarrow> error option \<times> 'm world" where
  "runPhase E [] guid w = (None, w)"
| "runPhase E (t # ts) guid w =
     (case runTool E t guid w of
        (Some e, w') \<Rightarrow> (Some (ToolFailed t e), w')
      | (None, w') \<Rightarrow> runPhase E ts guid w')"

section \<open>The network transition gate (installer.go, waitForVPN)\<close>

definition vpnHosts :: "string list" where
  "vpnHosts = [''artifactory.oci.oraclecorp.com:443'', ''bitbucket.oci.oraclecorp.com:7999'']"

text \<open>
  One polling round: the hosts are dialled in order, and the first failure ends the round
  with \<^verbatim>\<open>allUp = false\<close>.
\<close>

fun dialAll :: "(string \<Rightarrow> bool) \<Rightarrow> string list \<Rightarrow> bool" where
  "dialAll d [] = True"
| "dialAll d (h # hs) = (if d h then dialAll d hs else False)"

text \<open>
  The loop \<^verbatim>\<open>for { ... }\<close> has no exit but the return after a round with \<^verbatim>\<open>allUp\<close>; a
  round that fails sleeps five seconds and is followed by the next round.  The loop need
  not end, so it is a partial function: \<open>None\<close> is a wait that goes on for ever.  The
  result names the round after which the gate opened.
\<close>

partial_function (option) pollVPN :: "'m env \<Rightarrow> nat \<Rightarrow> 'm world \<Rightarrow> (nat \<times> 'm world) option" where
  "pollVPN E n w =
     (if dialAll (dial E n) vpnHosts
      then Some (n, logInfo ''vpn_wait'' ''VPN connectivity confirmed'' w)
      else pollVPN E (Suc n) w)"

text \<open>
  \<^verbatim>\<open>waitForVPN\<close>: in dry-run mode it logs and returns without a round (\<open>None\<close> in the
  first component); otherwise it polls from round 0.
\<close>

definition waitForVPN :: "'m env \<Rightarrow> 'm world \<Rightarrow> (nat option \<times> 'm world) option" where
  "waitForVPN E w =
     (if dryRun w
      then Some (None, logInfo ''vpn_wait'' ''dry-run mode: would poll internal hosts for VPN connectivity'' w)
      else map_option (\<lambda>r. (Some (fst r), snd r))
             (pollVPN E 0 (logInfo ''vpn_wait'' ''polling for VPN connectivity'' w)))"

section \<open>Preflight (the preflight file that goes with main.go)\<close>

definition preflightNetCheck :: "'m env \<Rightarrow> 'm world \<Rightarrow> error option \<times> 'm world" where
  "preflightNetCheck E w =
     (let w1 = logInfo ''net_check'' ''checking public internet reachability'' w
      in if \<not> publicInternet E 0 then (Some (Failure ''public internet unreachable''), w1)
         else (None, logInfo ''net_check'' ''public internet reachable'' w1))"

definition readPublicKey :: "'m env \<Rightarrow> string \<Rightarrow> 'm world \<Rightarrow> error option \<times> 'm world" where
  "readPublicKey E pubKeyPath w =
     (case readFile E pubKeyPath (machine w) of
        None \<Rightarrow> (Some (Failure (''could not read public key at '' @ pubKeyPath)), w)
      | Some pubKey \<Rightarrow>
          (None, logInfo ''ssh_key'' ''SSH public key ready; Bitbucket add step deferred until VPN is connected''
                   (w\<lparr>cachedSSHPublicKey := TrimSpace pubKey\<rparr>)))"

definition preflightSSHKeyEnsure :: "'m env \<Rightarrow> 'm world \<Rightarrow> error option \<times> 'm world" where
  "preflightSSHKeyEnsure E w =
     (case find (\<lambda>p. pathExists E p (machine w))
             [home E @ ''/.ssh/id_ed25519.pub'', home E @ ''/.ssh/id_rsa.pub''] of
        Some pubKeyPath \<Rightarrow> readPublicKey E pubKeyPath w
      | None \<Rightarrow>
          if dryRun w
          then (None, (logInfo ''ssh_key'' ''dry-run mode: no SSH key found; would generate ed25519 key'' w)
                        \<lparr>cachedSSHPublicKey := ''<dry-run: ssh public key would be generated here>''\<rparr>)
          else
            (let w1 = logInfo ''ssh_key'' ''no SSH key found, generating ed25519 key'' w
             in case uiPrompt E ''SSH Key Setup'' of
                  None \<Rightarrow> (Some (Failure ''SSH key generation cancelled''), w1)
                | Some email \<Rightarrow>
                    (let keyPath = home E @ ''/.ssh/id_ed25519'';
                         argv = [''ssh-keygen'', ''-t'', ''ed25519'', ''-C'', email, ''-f'', keyPath, ''-N'', []];
                         r = osExec E argv None (machine w1);
                         w2 = w1\<lparr>machine := snd r, execd := execd w1 @ [argv]\<rparr>
                     in if \<not> fst (fst r) then (Some (Failure ''ssh-keygen failed''), w2)
                        else readPublicKey E (keyPath @ ''.pub'') (logInfo ''ssh_key'' ''SSH key generated'' w2))))"

definition preflightIdentity :: "'m env \<Rightarrow> 'm world \<Rightarrow> (error + string) \<times> 'm world" where
  "preflightIdentity E w =
     (case uiPrompt E ''Oracle Identity'' of
        None \<Rightarrow> (Inl (Failure ''oracle GUID is required''), w)
      | Some guid \<Rightarrow>
          if TrimSpace guid = [] then (Inl (Failure ''oracle GUID is required''), w)
          else (Inr (TrimSpace guid),
                logInfo ''identity'' ''hostname/realname mutation disabled; GUID will only be used for tool config''
                  (logInfo ''identity'' ''oracle GUID entered'' w)))"

definition preflightRun :: "'m env \<Rightarrow> 'm world \<Rightarrow> (error + string) \<times> 'm world" where
  "preflightRun E w =
     (case preflightNetCheck E (logSetPhase ''preflight'' w) of
        (Some e, w1) \<Rightarrow> (Inl e, w1)
      | (None, w1) \<Rightarrow>
          (case preflightSSHKeyEnsure E w1 of
             (Some e, w2) \<Rightarrow> (Inl e, w2)
           | (None, w2) \<Rightarrow> preflightIdentity E w2))"

definition postVPNSSHKeyStep :: "'m env \<Rightarrow> 'm world \<Rightarrow> error option \<times> 'm world" where
  "postVPNSSHKeyStep E w =
     (if cachedSSHPublicKey w = []
      then (None, logWarn ''ssh_key'' ''no cached SSH key found from preflight; skipping Bitbucket prompt'' w)
      else if dryRun w
      then (None, logInfo ''ssh_key'' ''dry-run mode: would prompt user to add SSH key in Bitbucket now'' w)
      else (uiShowSSHKey E (cachedSSHPublicKey w),
            logInfo ''ssh_key'' ''presenting SSH public key for Bitbucket add'' w))"

section \<open>Steps of main that run commands (installer.go)\<close>

definition setPyenvGlobal :: "'m env \<Rightarrow> string list \<Rightarrow> 'm world \<Rightarrow> error option \<times> 'm world" where
  "setPyenvGlobal E versions w =
     (let r = runCmd E ''pyenv_global'' None (home E @ ''/.pyenv/bin/pyenv'') (''global'' # versions) w
      in (snd (fst r), snd r))"

definition sshpassPresent :: "'m env \<Rightarrow> 'm world \<Rightarrow> bool" where
  "sshpassPresent E w \<longleftrightarrow>
     pathExists E ''/opt/homebrew/bin/sshpass'' (machine w) \<or> pathExists E ''/usr/local/bin/sshpass'' (machine w)"

definition ensureSSHPass :: "'m env \<Rightarrow> 'm world \<Rightarrow> error option \<times> 'm world" where
  "ensureSSHPass E w =
     (if sshpassPresent E w then (None, logInfo ''sshpass'' ''sshpass already installed'' w)
      else if \<not> pathExists E ''/opt/homebrew/bin/brew'' (machine w)
      then (Some (Failure ''homebrew not found; required for sshpass install''), w)
      else
        (let r1 = runCmd E ''sshpass'' None ''/opt/homebrew/bin/brew'' [''install'', ''hudochenkov/sshpass/sshpass''] w;
             r2 = (case snd (fst r1) of
                     None \<Rightarrow> (None, snd r1)
                   | Some e \<Rightarrow>
                       (let r = runCmd E ''sshpass'' None ''/opt/homebrew/bin/brew'' [''install'', ''sshpass''] (snd r1)
                        in (case snd (fst r) of
                              None \<Rightarrow> (None, snd r)
                            | Some e2 \<Rightarrow> (Some (Failure ''sshpass install failed''), snd r))))
         in case fst r2 of
              Some e \<Rightarrow> (Some e, snd r2)
            | None \<Rightarrow>
                if \<not> sshpassPresent E (snd r2)
                then (Some (Failure ''sshpass install completed but binary not found''), snd r2)
                else (None, snd r2)))"

section \<open>Tool selection (main.go)\<close>

fun hasTool :: "toolID list \<Rightarrow> toolID \<Rightarrow> bool" where
  "hasTool [] target = False"
| "hasTool (t # ts) target = (if t = target then True else hasTool ts target)"

text \<open>
  \<^verbatim>\<open>parseOnlyFlag\<close>: each piece between commas is trimmed; a name of \<^verbatim>\<open>validToolIDs\<close>
  is requested, any other piece is reported on standard error; the requested tools are
  resolved.
\<close>

fun collectOnly :: "string list \<Rightarrow> toolID list \<Rightarrow> 'm world \<Rightarrow> toolID list \<times> 'm world" where
  "collectOnly [] requested w = (requested, w)"
| "collectOnly (s # rest) requested w =
     (case validToolIDs (TrimSpace s) of
        Some t \<Rightarrow> collectOnly rest (requested @ [t]) w
      | None \<Rightarrow> collectOnly rest requested (w\<lparr>stderr := stderr w @ [UnknownToolReport (TrimSpace s)]\<rparr>))"

definition parseOnlyFlag :: "string \<Rightarrow> 'm world \<Rightarrow> toolID list \<times> 'm world" where
  "parseOnlyFlag raw w =
     (let r = collectOnly (splitOn CHR '','' raw) [] w in (resolveTools (fst r), snd r))"

definition bastionConfigsOption :: string where
  "bastionConfigsOption = ''bastion_configs (coming soon)''"

definition allTools :: "toolID list" where
  "allTools = resolveTools
     [toolITerm2, toolXcode, toolHomebrew, toolPyenv, toolPython313, toolPython396,
      toolPyenvVenvNCP, toolAllProxy, toolSpartaPKI, toolHopsCLI]"

fun toolIDsToNames :: "toolID list \<Rightarrow> string set \<Rightarrow> string list" where
  "toolIDsToNames [] seen = []"
| "toolIDsToNames (t # ts) seen =
     (if t \<in> seen then toolIDsToNames ts seen else t # toolIDsToNames ts (insert t seen))"

fun pickSelected :: "string list \<Rightarrow> toolID list \<times> bool \<Rightarrow> toolID list \<times> bool" where
  "pickSelected [] acc = acc"
| "pickSelected (name # rest) (selected, bastion) =
     (if name = bastionConfigsOption then pickSelected rest (selected, True)
      else (case validToolIDs name of
              Some t \<Rightarrow> pickSelected rest (selected @ [t], bastion)
            | None \<Rightarrow> pickSelected rest (selected, bastion)))"

text \<open>
  \<^verbatim>\<open>promptToolSelection\<close>.  The option names are the keys of \<^verbatim>\<open>validToolIDs\<close> and the
  bastion option, sorted; the dialog's answer is the operator's.
\<close>

definition promptToolSelection :: "'m env \<Rightarrow> bool \<Rightarrow> error + (toolID list \<times> bool)" where
  "promptToolSelection E defaultIncludeGNOC =
     (let optionNames = sort (map fst validToolIDList @ [bastionConfigsOption]);
          defaultSelection = toolIDsToNames allTools {} @ (if defaultIncludeGNOC then [toolGNOCHelper] else [])
      in case uiChooseFromList E optionNames defaultSelection of
           None \<Rightarrow> Inl (Failure ''tool selection dialog failed'')
         | Some selectedNames \<Rightarrow>
             (let p = pickSelected selectedNames ([], False)
              in Inr (if hasTool (fst p) toolGNOCHelper
                      then fst p @ [toolStencil, toolSilencer, toolJITPass]
                      else fst p, snd p)))"

section \<open>The pipeline (main.go, main)\<close>

record flags =
  gnocFlag :: bool
  onlyFlag :: string
  listFlag :: bool
  dryRunFlag :: bool

text \<open>
  The process ends with an exit status: \<^verbatim>\<open>os.Exit(1)\<close> and \<^verbatim>\<open>logFatal\<close> give 1, a
  return from \<^verbatim>\<open>main\<close> gives 0 after the deferred \<^verbatim>\<open>logClose\<close>.  The functions below
  return the status with the state at exit; \<open>None\<close> is a run that waits for the private
  network for ever.  The goroutine that refreshes the sudo credentials every minute is not
  modelled.
\<close>

definition startSudoKeepalive :: "'m env \<Rightarrow> 'm world \<Rightarrow> error option \<times> 'm world" where
  "startSudoKeepalive E w =
     (let r = osExec E [''sudo'', ''-v''] None (machine w);
          w1 = w\<lparr>machine := snd r, execd := execd w @ [[''sudo'', ''-v'']]\<rparr>
      in if \<not> fst (fst r) then (Some (Failure ''sudo auth failed''), w1)
         else (None, logInfo ''sudo'' ''sudo credentials cached'' w1))"

text \<open>Phase 2 and phase 3: the hand-over to the private network and the internal tools.\<close>

definition privatePhases ::
  "'m env \<Rightarrow> string \<Rightarrow> toolID list \<Rightarrow> bool \<Rightarrow> 'm world \<Rightarrow> (nat \<times> 'm world) option" where
  "privatePhases E guid p3 bastionConfigsSelected w =
     (case waitForVPN E (logSetPhase ''phase2'' w) of
        None \<Rightarrow> None
      | Some g \<Rightarrow>
          (case postVPNSSHKeyStep E (snd g) of
             (Some e, w3) \<Rightarrow> Some (logFatal ''ssh_key'' (errorText e) w3)
           | (None, w3) \<Rightarrow>
               (let w4 = (if publicInternet E 1
                          then logInfo ''net_check'' ''public internet reachable while on VPN'' w3
                          else logWarn ''net_check'' ''public internet currently unreachable while on VPN'' w3)
                in case runPhase E p3 guid (logSetPhase ''phase3'' w4) of
                     (Some e, w6) \<Rightarrow> Some (logFatal ''phase3'' (errorText e) w6)
                   | (None, w6) \<Rightarrow>
                       (let w7 = (if bastionConfigsSelected
                                  then logWarn ''bastion_configs'' ''Bastion configs selected, but setup is not implemented yet; skipping'' w6
                                  else w6)
                        in Some (0, logClose (logInfo ''done'' ''completed successfully'' w7))))))"

text \<open>From the phase split to the end of \<^verbatim>\<open>main\<close>.\<close>

definition runPhases ::
  "'m env \<Rightarrow> string \<Rightarrow> toolID list \<Rightarrow> bool \<Rightarrow> 'm world \<Rightarrow> (nat \<times> 'm world) option" where
  "runPhases E guid tools bastionConfigsSelected w =
     (case runPhase E (fst (classify tools)) guid (logSetPhase ''phase1'' w) of
        (Some e, w2) \<Rightarrow> Some (logFatal ''phase1'' (errorText e) w2)
      | (None, w2) \<Rightarrow>
          (let w3 = (if dryRun w2
                     then logInfo ''pyenv_global'' ''dry-run mode: would set pyenv global 3.13.2 ncpcli'' w2
                     else (case setPyenvGlobal E [''3.13.2'', ''ncpcli''] w2 of
                             (Some e, w') \<Rightarrow> logWarn ''pyenv_global'' (''pyenv global set failed: '' @ errorText e) w'
                           | (None, w') \<Rightarrow> w'));
               s = (if hasTool tools toolGNOCHelper
                    then (if dryRun w3
                          then (None, logInfo ''sshpass'' ''dry-run mode: would install/verify sshpass'' w3)
                          else ensureSSHPass E w3)
                    else (None, w3))
           in case s of
                (Some e, w4) \<Rightarrow> Some (logFatal ''sshpass'' (errorText e) w4)
              | (None, w4) \<Rightarrow>
                  if snd (classify tools) = []
                  then Some (0, logClose
                         (if bastionConfigsSelected
                          then logWarn ''bastion_configs'' ''Bastion configs selected, but setup is not implemented yet; skipping'' w4
                          else w4))
                  else privatePhases E guid (snd (classify tools)) bastionConfigsSelected w4))"

text \<open>The tool list: from \<^verbatim>\<open>--only\<close> when it is given, from the selection dialog otherwise.\<close>

definition selectAndRun :: "'m env \<Rightarrow> flags \<Rightarrow> string \<Rightarrow> 'm world \<Rightarrow> (nat \<times> 'm world) option" where
  "selectAndRun E F guid w =
     (if onlyFlag F \<noteq> []
      then (let r = parseOnlyFlag (onlyFlag F) w
            in if fst r = [] then Some (1, (snd r)\<lparr>stderr := stderr (snd r) @ [NoValidToolIDs]\<rparr>)
               else runPhases E guid (fst r) False (snd r))
      else (case promptToolSelection E (gnocFlag F) of
              Inl e \<Rightarrow> Some (logFatal ''tool_select'' (errorText e) w)
            | Inr sel \<Rightarrow>
                if fst sel = [] \<and> \<not> snd sel then Some (0, logClose w)
                else runPhases E guid (resolveTools (fst sel)) (snd sel) w))"

definition main :: "'m env \<Rightarrow> flags \<Rightarrow> 'm world \<Rightarrow> (nat \<times> 'm world) option" where
  "main E F w0 =
     (let w = w0\<lparr>dryRun := dryRunFlag F\<rparr>
      in if listFlag F then Some (0, w)
         else if \<not> logInitOk E then Some (1, w\<lparr>stderr := stderr w @ [LoggerInitFailed]\<rparr>)
         else
           (let w1 = logInfo ''session_start'' ''chs-onboard started'' (w\<lparr>logOpen := True\<rparr>);
                s = (if \<not> dryRun w1 then startSudoKeepalive E w1
                     else (None, logInfo ''sudo'' ''dry-run mode: skipping sudo credential caching'' w1))
            in case s of
                 (Some e, w2) \<Rightarrow> Some (logFatal ''sudo'' (errorText e) w2)
               | (None, w2) \<Rightarrow>
                   (case preflightRun E (logSetPhase ''preflight'' w2) of
                      (Inl e, w3) \<Rightarrow> Some (logFatal ''preflight'' (errorText e) w3)
                    | (Inr guid, w3) \<Rightarrow>
                        (case writeBaseZshrcBlocks w3 of
                           (Some e, w4) \<Rightarrow> Some (logFatal ''zshrc'' (errorText e) w4)
                         | (None, w4) \<Rightarrow>
                             (case configureNoSleepAliases E w4 of
                                (Some e, w5) \<Rightarrow> Some (logFatal ''sleep_alias'' (errorText e) w5)
                              | (None, w5) \<Rightarrow> selectAndRun E F guid w5)))))"

text \<open>
  A process starts with the initial values of its package-level variables:
  \<^verbatim>\<open>stateData\<close> points to a run state with an empty map, the log is not open.
\<close>

definition startProcess :: "'m world \<Rightarrow> 'm world" where
  "startProcess w =
     w\<lparr>dryRun := False, forceReinstall := False,
       stateData := Some \<lparr>CompletedTools = Some Map.empty\<rparr>,
       logOpen := False, logPhase := [], cachedSSHPublicKey := []\<rparr>"

text \<open>\<open>runs\<close>: the program is started once for each pair of surroundings and flags, in order.\<close>

fun runs :: "('m env \<times> flags) list \<Rightarrow> 'm world \<Rightarrow> 'm world option" where
  "runs [] w = Some w"
| "runs ((E, F) # rest) w =
     (case main E F (startProcess w) of None \<Rightarrow> None | Some r \<Rightarrow> runs rest (snd r))"

section \<open>Concrete surroundings for the examples\<close>

text \<open>
  A workstation on which nothing is set up yet, with a process at its initial values, and
  surroundings in which every command succeeds without output, no probed path exists, the
  public internet answers, no private host accepts a connection, the operator enters
  \<^verbatim>\<open>jsmith\<close> and selects nothing, and every installer succeeds at once.
\<close>

definition freshWorld :: "unit world" where
  "freshWorld =
     \<lparr>dryRun = False, forceReinstall = False,
      stateData = Some \<lparr>CompletedTools = Some Map.empty\<rparr>,
      logOpen = False, logPhase = [], cachedSSHPublicKey = [],
      zshrc = None, zshrcWritable = True, stateFile = None, stateWritable = True,
      runLog = [], machine = (), dispatched = [], execd = [], stderr = []\<rparr>"

definition quietEnv :: "unit env" where
  "quietEnv =
     \<lparr>home = ''/Users/jsmith'', baseEnv = [],
      osExec = (\<lambda>argv envv m. ((True, []), m)),
      pathExists = (\<lambda>p m. False),
      readFile = (\<lambda>p m. None),
      publicInternet = (\<lambda>k. True),
      dial = (\<lambda>n h. False),
      uiPrompt = (\<lambda>title. Some ''jsmith''),
      uiChooseFromList = (\<lambda>options defaults. Some []),
      uiShowSSHKey = (\<lambda>key. None),
      installer = (\<lambda>t guid s. (None, s)),
      pmsetValue = (\<lambda>key out. None),
      logInitOk = True,
      now = ''2026-01-01T00:00:00Z''\<rparr>"

text \<open>The same surroundings with an installer of \<^verbatim>\<open>homebrew\<close> that fails.\<close>

definition brewFailsEnv :: "unit env" where
  "brewFailsEnv =
     quietEnv\<lparr>installer :=
       (\<lambda>t guid s. (if t = toolHomebrew then Some (OSError ''brew install'') else None, s))\<rparr>"

text \<open>The same surroundings with a private network that is reachable from round 2 on.\<close>

definition vpnLaterEnv :: "unit env" where
  "vpnLaterEnv = quietEnv\<lparr>dial := (\<lambda>n h. 2 \<le> n)\<rparr>"

section \<open>Properties of the resolver\<close>

lemma prereqsPlaced_append:
  "prereqsPlaced g seen (xs @ ys) \<longleftrightarrow> prereqsPlaced g seen xs \<and> prereqsPlaced g (seen @ xs) ys"
  by (induction xs arbitrary: seen) auto

lemma dependencyOrdered_Nil: "dependencyOrdered g []"
  by (simp add: dependencyOrdered_def)

lemma dependencyOrdered_snoc:
  "dependencyOrdered g (xs @ [t]) \<longleftrightarrow> dependencyOrdered g xs \<and> set (depsOf g t) \<subseteq> set xs"
  by (simp add: dependencyOrdered_def prereqsPlaced_append)

lemma prereqsPlaced_nth:
  "prereqsPlaced g seen xs \<longleftrightarrow>
     (\<forall>i<length xs. set (depsOf g (xs ! i)) \<subseteq> set seen \<union> set (take i xs))"
proof (induction xs arbitrary: seen)
  case Nil
  show ?case by simp
next
  case (Cons x xs)
  show ?case
  proof
    assume l: "prereqsPlaced g seen (x # xs)"
    then have a: "set (depsOf g x) \<subseteq> set seen"
      and b: "\<forall>i<length xs. set (depsOf g (xs ! i)) \<subseteq> set (seen @ [x]) \<union> set (take i xs)"
      using Cons.IH[of "seen @ [x]"] by auto
    show "\<forall>i<length (x # xs). set (depsOf g ((x # xs) ! i)) \<subseteq> set seen \<union> set (take i (x # xs))"
    proof (intro allI impI)
      fix i assume "i < length (x # xs)"
      then show "set (depsOf g ((x # xs) ! i)) \<subseteq> set seen \<union> set (take i (x # xs))"
        using a b by (cases i) auto
    qed
  next
    assume r: "\<forall>i<length (x # xs). set (depsOf g ((x # xs) ! i)) \<subseteq> set seen \<union> set (take i (x # xs))"
    from r[rule_format, of 0] have a: "set (depsOf g x) \<subseteq> set seen" by simp
    have "\<forall>i<length xs. set (depsOf g (xs ! i)) \<subseteq> set (seen @ [x]) \<union> set (take i xs)"
    proof (intro allI impI)
      fix i assume "i < length xs"
      with r[rule_format, of "Suc i"] show "set (depsOf g (xs ! i)) \<subseteq> set (seen @ [x]) \<union> set (take i xs)"
        by auto
    qed
    with a show "prereqsPlaced g seen (x # xs)" using Cons.IH[of "seen @ [x]"] by simp
  qed
qed

lemma dependencyOrdered_nth:
  "dependencyOrdered g xs \<longleftrightarrow> (\<forall>i<length xs. set (depsOf g (xs ! i)) \<subseteq> set (take i xs))"
  by (simp add: dependencyOrdered_def prereqsPlaced_nth)

lemma dependencyOrdered_closed:
  assumes "dependencyOrdered g xs" "(t, u) \<in> (prereq g)\<^sup>*" "t \<in> set xs"
  shows "u \<in> set xs"
  using assms(2,3)
proof (induction rule: rtrancl_induct)
  case base
  then show ?case .
next
  case (step y z)
  then have "y \<in> set xs" by simp
  then obtain i where i: "i < length xs" "xs ! i = y" by (auto simp: in_set_conv_nth)
  from step(2) have "z \<in> set (depsOf g y)" by (simp add: prereq_def)
  with assms(1) i have "z \<in> set (take i xs)" by (auto simp: dependencyOrdered_nth)
  then show ?case by (rule in_set_takeD)
qed

lemma prereq_Image_unfold: "(prereq g)\<^sup>* `` {t} = insert t ((prereq g)\<^sup>* `` set (depsOf g t))"
proof
  show "(prereq g)\<^sup>* `` {t} \<subseteq> insert t ((prereq g)\<^sup>* `` set (depsOf g t))"
  proof
    fix u assume "u \<in> (prereq g)\<^sup>* `` {t}"
    then have "(t, u) \<in> (prereq g)\<^sup>*" by simp
    then show "u \<in> insert t ((prereq g)\<^sup>* `` set (depsOf g t))"
    proof (cases rule: converse_rtranclE)
      case base
      then show ?thesis by simp
    next
      case (step y)
      then have "y \<in> set (depsOf g t)" by (simp add: prereq_def)
      with step(2) show ?thesis by auto
    qed
  qed
next
  show "insert t ((prereq g)\<^sup>* `` set (depsOf g t)) \<subseteq> (prereq g)\<^sup>* `` {t}"
    by (auto simp: prereq_def intro: converse_rtrancl_into_rtrancl)
qed

lemma ready_mono: "ready g s T \<Longrightarrow> T' \<subseteq> T \<Longrightarrow> ready g s T'"
  unfolding ready_def by blast

lemma ready_after:
  assumes "ready g s T" "extends g s s1 A"
  shows "ready g s1 T"
proof -
  from assms(2) obtain new where n: "order s1 = order s @ new" "visited s1 = visited s \<union> set new"
    "distinct new" "set new \<inter> visited s = {}" "dependencyOrdered g (order s1)"
    unfolding extends_def by blast
  from assms(1) have r: "set (order s) \<subseteq> visited s" "distinct (order s)"
    "\<forall>t\<in>T. \<forall>x\<in>visited s - set (order s). (t, x) \<notin> (prereq g)\<^sup>*"
    unfolding ready_def by blast+
  have a: "set (order s1) \<subseteq> visited s1" using n r by auto
  have b: "distinct (order s1)" using n r by auto
  have "visited s1 - set (order s1) \<subseteq> visited s - set (order s)" using n by auto
  with r(3) have c: "\<forall>t\<in>T. \<forall>x\<in>visited s1 - set (order s1). (t, x) \<notin> (prereq g)\<^sup>*" by blast
  show ?thesis unfolding ready_def using n(5) a b c by blast
qed

lemma extends_trans:
  assumes "extends g s s1 A" "extends g s1 s2 B"
  shows "extends g s s2 (A \<union> B)"
proof -
  from assms(1) obtain n1 where n1: "order s1 = order s @ n1" "visited s1 = visited s \<union> set n1"
    "distinct n1" "set n1 \<inter> visited s = {}" "set (order s1) = set (order s) \<union> (prereq g)\<^sup>* `` A"
    unfolding extends_def by blast
  from assms(2) obtain n2 where n2: "order s2 = order s1 @ n2" "visited s2 = visited s1 \<union> set n2"
    "distinct n2" "set n2 \<inter> visited s1 = {}" "dependencyOrdered g (order s2)"
    "set (order s2) = set (order s1) \<union> (prereq g)\<^sup>* `` B"
    unfolding extends_def by blast
  have 1: "order s2 = order s @ (n1 @ n2)" using n1 n2 by simp
  have 2: "visited s2 = visited s \<union> set (n1 @ n2)" using n1 n2 by auto
  have 3: "distinct (n1 @ n2)" using n1 n2 by auto
  have 4: "set (n1 @ n2) \<inter> visited s = {}" using n1 n2 by auto
  have 5: "set (order s2) = set (order s) \<union> (prereq g)\<^sup>* `` (A \<union> B)"
    using n1(5) n2(6) by (simp add: Image_Un Un_assoc)
  show ?thesis unfolding extends_def using 1 2 3 4 5 n2(5) by blast
qed

lemma extends_visited:
  assumes "ready g s {t}" "t \<in> visited s"
  shows "extends g s s {t}"
proof -
  from assms(1) have r: "dependencyOrdered g (order s)"
    "\<forall>x\<in>visited s - set (order s). (t, x) \<notin> (prereq g)\<^sup>*"
    unfolding ready_def by blast+
  from r(2) assms(2) have t: "t \<in> set (order s)" by blast
  have "(prereq g)\<^sup>* `` {t} \<subseteq> set (order s)"
    using dependencyOrdered_closed[OF r(1) _ t] by auto
  then have "set (order s) = set (order s) \<union> (prereq g)\<^sup>* `` {t}" by blast
  then show ?thesis unfolding extends_def using r(1) by (intro exI[of _ "[]"]) simp
qed

lemma ready_mark:
  assumes ac: "acyclic (prereq g)" and r: "ready g s {t}" and t: "t \<notin> visited s"
  shows "ready g (s\<lparr>visited := insert t (visited s)\<rparr>) (set (depsOf g t))"
proof -
  from r have r': "dependencyOrdered g (order s)" "set (order s) \<subseteq> visited s" "distinct (order s)"
    "\<forall>x\<in>visited s - set (order s). (t, x) \<notin> (prereq g)\<^sup>*"
    unfolding ready_def by blast+
  have "(d, x) \<notin> (prereq g)\<^sup>*"
    if d: "d \<in> set (depsOf g t)" and x: "x \<in> insert t (visited s) - set (order s)" for d x
  proof
    assume dx: "(d, x) \<in> (prereq g)\<^sup>*"
    from d have td: "(t, d) \<in> prereq g" by (simp add: prereq_def)
    show False
    proof (cases "x = t")
      case True
      with td dx have "(t, t) \<in> (prereq g)\<^sup>+" by (simp add: rtrancl_into_trancl2)
      with ac show False by (simp add: acyclic_def)
    next
      case False
      with x have "x \<in> visited s - set (order s)" by simp
      moreover from td dx have "(t, x) \<in> (prereq g)\<^sup>*" by (rule converse_rtrancl_into_rtrancl)
      ultimately show False using r'(4) by blast
    qed
  qed
  then show ?thesis unfolding ready_def using r'(1,2,3) by auto
qed

lemma extends_append:
  assumes r: "ready g s {t}" and t: "t \<notin> visited s"
    and e: "extends g (s\<lparr>visited := insert t (visited s)\<rparr>) s1 (set (depsOf g t))"
  shows "extends g s (s1\<lparr>order := order s1 @ [t]\<rparr>) {t}"
proof -
  from r have r': "set (order s) \<subseteq> visited s" unfolding ready_def by blast
  from e obtain new where n: "order s1 = order s @ new" "visited s1 = insert t (visited s) \<union> set new"
    "distinct new" "set new \<inter> insert t (visited s) = {}" "dependencyOrdered g (order s1)"
    "set (order s1) = set (order s) \<union> (prereq g)\<^sup>* `` set (depsOf g t)"
    unfolding extends_def by auto
  let ?s2 = "s1\<lparr>order := order s1 @ [t]\<rparr>"
  have 1: "order ?s2 = order s @ (new @ [t])" using n by simp
  have 2: "visited ?s2 = visited s \<union> set (new @ [t])" using n by auto
  have 3: "distinct (new @ [t])" using n by auto
  have 4: "set (new @ [t]) \<inter> visited s = {}" using n t by auto
  have "set (depsOf g t) \<subseteq> set (order s1)" using n(6) by auto
  then have 5: "dependencyOrdered g (order ?s2)" using n(5) by (simp add: dependencyOrdered_snoc)
  have 6: "set (order ?s2) = set (order s) \<union> (prereq g)\<^sup>* `` {t}"
    using n(6) by (subst prereq_Image_unfold) auto
  show ?thesis unfolding extends_def using 1 2 3 4 5 6 by blast
qed

lemma visit_visitEach_spec:
  shows "acyclic (prereq g) \<Longrightarrow> ready g s {t} \<Longrightarrow> extends g s (visit g t s) {t}"
    and "acyclic (prereq g) \<Longrightarrow> ready g s (set ts) \<Longrightarrow> extends g s (visitEach g ts s) (set ts)"
proof (induction g t s and g ts s rule: visit_visitEach.induct)
  case (1 g t s)
  show ?case
  proof (cases "t \<in> visited s")
    case True
    with 1(3) show ?thesis by (simp add: visit.simps extends_visited)
  next
    case False
    let ?s0 = "s\<lparr>visited := insert t (visited s)\<rparr>"
    have "ready g ?s0 (set (depsOf g t))" using 1(2,3) False by (rule ready_mark)
    with 1(1)[OF False 1(2)] have "extends g ?s0 (visitEach g (depsOf g t) ?s0) (set (depsOf g t))" .
    with 1(3) False have "extends g s ((visitEach g (depsOf g t) ?s0)\<lparr>order := order (visitEach g (depsOf g t) ?s0) @ [t]\<rparr>) {t}"
      by (rule extends_append)
    with False show ?thesis by (simp add: visit.simps Let_def)
  qed
next
  case (2 g s)
  then show ?case by (simp add: extends_def ready_def)
next
  case (3 g t ts s)
  from 3(4) have rt: "ready g s {t}" and rts: "ready g s (set ts)" by (auto elim: ready_mono)
  from 3(1)[OF 3(3) rt] have e1: "extends g s (visit g t s) {t}" .
  from rts e1 have "ready g (visit g t s) (set ts)" by (rule ready_after)
  from 3(2)[OF 3(3) this] have e2: "extends g (visit g t s) (visitEach g ts (visit g t s)) (set ts)" .
  from extends_trans[OF e1 e2] show ?case by simp
qed

lemma resolveWith_spec:
  assumes "acyclic (prereq g)"
  shows "distinct (resolveWith g requested)"
    and "set (resolveWith g requested) = (prereq g)\<^sup>* `` set requested"
    and "dependencyOrdered g (resolveWith g requested)"
proof -
  let ?s = "\<lparr>visited = {}, order = []\<rparr> :: 'a resolver"
  have "ready g ?s (set requested)" by (simp add: ready_def dependencyOrdered_Nil)
  with assms have "extends g ?s (visitEach g requested ?s) (set requested)"
    by (rule visit_visitEach_spec(2))
  then show "distinct (resolveWith g requested)"
    and "set (resolveWith g requested) = (prereq g)\<^sup>* `` set requested"
    and "dependencyOrdered g (resolveWith g requested)"
    unfolding extends_def resolveWith_def by auto
qed

lemma dependencyOrdered_trancl:
  assumes "dependencyOrdered g xs" "(xs ! i, d) \<in> (prereq g)\<^sup>+" "i < length xs"
  shows "\<exists>j<i. xs ! j = d"
  using assms(2)
proof (induction rule: trancl_induct)
  case (base y)
  then have "y \<in> set (depsOf g (xs ! i))" by (simp add: prereq_def)
  with assms(1,3) have "y \<in> set (take i xs)" by (auto simp: dependencyOrdered_nth)
  then show ?case by (auto simp: in_set_conv_nth)
next
  case (step y z)
  then obtain j where j: "j < i" "xs ! j = y" by blast
  from step(2) j have "z \<in> set (depsOf g (xs ! j))" by (simp add: prereq_def)
  moreover from j assms(3) have "j < length xs" by simp
  ultimately have "z \<in> set (take j xs)" using assms(1) by (auto simp: dependencyOrdered_nth)
  then obtain k where "k < j" "xs ! k = z" by (auto simp: in_set_conv_nth)
  with j show ?case by (intro exI[of _ k]) simp
qed

lemma count_list_distinct: "distinct xs \<Longrightarrow> x \<in> set xs \<Longrightarrow> count_list xs x = 1"
  by (induction xs) auto

lemma visitEach_marked: "set ds \<subseteq> visited s \<Longrightarrow> visitEach g ds s = s"
  by (induction ds) (auto simp: visit.simps)

lemma visitEach_ordered_input:
  "visited s = set (order s) \<Longrightarrow> dependencyOrdered g (order s @ ts) \<Longrightarrow> distinct (order s @ ts) \<Longrightarrow>
     visitEach g ts s = s\<lparr>visited := visited s \<union> set ts, order := order s @ ts\<rparr>"
proof (induction ts arbitrary: s)
  case Nil
  then show ?case by simp
next
  case (Cons t ts)
  let ?s0 = "s\<lparr>visited := insert t (visited s)\<rparr>"
  let ?s1 = "s\<lparr>visited := insert t (visited s), order := order s @ [t]\<rparr>"
  from Cons.prems have t: "t \<notin> visited s" by auto
  from Cons.prems(2) have "dependencyOrdered g ((order s @ [t]) @ ts)" by simp
  then have "dependencyOrdered g (order s @ [t])"
    unfolding dependencyOrdered_def prereqsPlaced_append by blast
  then have "set (depsOf g t) \<subseteq> set (order s)" by (simp add: dependencyOrdered_snoc)
  with Cons.prems(1) have "set (depsOf g t) \<subseteq> visited ?s0" by auto
  then have "visitEach g (depsOf g t) ?s0 = ?s0" by (rule visitEach_marked)
  with t have v: "visit g t s = ?s1" by (simp add: visit.simps)
  have "visitEach g ts ?s1 = ?s1\<lparr>visited := visited ?s1 \<union> set ts, order := order ?s1 @ ts\<rparr>"
    using Cons.prems by (intro Cons.IH) auto
  with v show ?case by simp
qed

lemma resolveWith_fixpoint:
  "dependencyOrdered g xs \<Longrightarrow> distinct xs \<Longrightarrow> resolveWith g xs = xs"
  using visitEach_ordered_input[of "\<lparr>visited = {}, order = []\<rparr>" g xs]
  by (simp add: resolveWith_def)

lemma acyclic_if_keys_ordered:
  assumes "dependencyOrdered g (map fst g)"
  shows "acyclic (prereq g)"
proof (rule acyclicI, rule allI, rule notI)
  fix x
  assume c: "(x, x) \<in> (prereq g)\<^sup>+"
  then obtain y where "(x, y) \<in> prereq g" by (auto dest: tranclD)
  then have "depsOf g x \<noteq> []" by (auto simp: prereq_def)
  then have "map_of g x \<noteq> None" by (auto simp: depsOf_def split: option.splits)
  then have "x \<in> set (map fst g)" by (simp add: map_of_eq_None_iff)
  then obtain i where i: "i < length (map fst g)" "map fst g ! i = x"
    unfolding in_set_conv_nth by blast
  define k where "k = (LEAST i. i < length (map fst g) \<and> map fst g ! i = x)"
  from i have k: "k < length (map fst g) \<and> map fst g ! k = x"
    unfolding k_def by (intro LeastI[of "\<lambda>i. i < length (map fst g) \<and> map fst g ! i = x" i]) simp
  with c have "(map fst g ! k, x) \<in> (prereq g)\<^sup>+" by simp
  from dependencyOrdered_trancl[OF assms this] k obtain j where j: "j < k" "map fst g ! j = x" by blast
  with k have "j < length (map fst g) \<and> map fst g ! j = x" by simp
  then have "k \<le> j" unfolding k_def by (rule Least_le)
  with j show False by simp
qed

lemma acyclic_depMap: "acyclic (prereq depMap)"
  by (rule acyclic_if_keys_ordered) (simp add: dependencyOrdered_def depMap_def depsOf_def)


lemma resolve_example:
  "resolveTools [toolHopsCLI, toolAllProxy, toolHopsCLI] =
     [toolXcode, toolHomebrew, toolPyenv, toolPython313, toolSpartaPKI, toolHopsCLI, toolAllProxy]"
  by (simp add: resolveTools_def resolveWith_def visit.simps depsOf_def depMap_def)

lemma resolve_example2:
  "resolveTools [toolHopsCLI, toolITerm2] =
     [toolXcode, toolHomebrew, toolPyenv, toolPython313, toolSpartaPKI, toolHopsCLI, toolITerm2]"
  by (simp add: resolveTools_def resolveWith_def visit.simps depsOf_def depMap_def)

lemma splitPhases_filter:
  "splitPhases ts (p1, p3) = (p1 @ filter phase1Tools ts, p3 @ filter (\<lambda>t. \<not> phase1Tools t) ts)"
  by (induction ts arbitrary: p1 p3) auto

lemma classify_filter:
  "classify plan = (filter phase1Tools plan, filter (\<lambda>t. \<not> phase1Tools t) plan)"
  by (simp add: classify_def splitPhases_filter)

lemma prereqsPlaced_mono:
  "prereqsPlaced g seen xs \<Longrightarrow> set seen \<subseteq> set seen' \<Longrightarrow> prereqsPlaced g seen' xs"
proof (induction xs arbitrary: seen seen')
  case Nil
  show ?case by simp
next
  case (Cons x xs)
  from Cons.prems have "set (seen @ [x]) \<subseteq> set (seen' @ [x])" by auto
  with Cons.prems Cons.IH[of "seen @ [x]" "seen' @ [x]"] show ?case by auto
qed

lemma dependencyOrdered_insert:
  assumes "dependencyOrdered g (A @ B)" "set (depsOf g t) \<subseteq> set A"
  shows "dependencyOrdered g (A @ t # B)"
proof -
  from assms(1) have a: "prereqsPlaced g [] A" and b: "prereqsPlaced g A B"
    by (simp_all add: dependencyOrdered_def prereqsPlaced_append)
  from b have "prereqsPlaced g (A @ [t]) B" by (rule prereqsPlaced_mono) auto
  with a assms(2) show ?thesis by (simp add: dependencyOrdered_def prereqsPlaced_append)
qed

lemma dependencyOrdered_partition:
  assumes cl: "\<And>t d. P t \<Longrightarrow> d \<in> set (depsOf g t) \<Longrightarrow> P d"
  shows "dependencyOrdered g xs \<Longrightarrow> dependencyOrdered g (filter P xs @ filter (\<lambda>t. \<not> P t) xs)"
proof (induction xs rule: rev_induct)
  case Nil
  show ?case by (simp add: dependencyOrdered_Nil)
next
  case (snoc x xs)
  from snoc.prems have o: "dependencyOrdered g xs" and d: "set (depsOf g x) \<subseteq> set xs"
    by (simp_all add: dependencyOrdered_snoc)
  from snoc.IH[OF o] have ih: "dependencyOrdered g (filter P xs @ filter (\<lambda>t. \<not> P t) xs)" .
  show ?case
  proof (cases "P x")
    case True
    with d cl have "set (depsOf g x) \<subseteq> set (filter P xs)" by auto
    with ih have "dependencyOrdered g (filter P xs @ x # filter (\<lambda>t. \<not> P t) xs)"
      by (rule dependencyOrdered_insert)
    with True show ?thesis by simp
  next
    case False
    from d have "set (depsOf g x) \<subseteq> set (filter P xs @ filter (\<lambda>t. \<not> P t) xs)" by auto
    with ih have "dependencyOrdered g ((filter P xs @ filter (\<lambda>t. \<not> P t) xs) @ [x])"
      by (simp only: dependencyOrdered_snoc)
    with False show ?thesis by simp
  qed
qed

lemma phase1_closed: "phase1Tools t \<Longrightarrow> d \<in> set (depsOf depMap t) \<Longrightarrow> phase1Tools d"
  by (auto simp: phase1Tools_def depsOf_def depMap_def)

lemma dependencyOrdered_before:
  "dependencyOrdered g xs \<Longrightarrow> i < length xs \<Longrightarrow> d \<in> set (depsOf g (xs ! i)) \<Longrightarrow> \<exists>j<i. xs ! j = d"
  by (rule dependencyOrdered_trancl[where g = g]) (auto simp: prereq_def)

lemma resolveTools_ordered: "dependencyOrdered depMap (resolveTools requested)"
  unfolding resolveTools_def using acyclic_depMap by (rule resolveWith_spec(3))

lemma classify_ordered:
  "dependencyOrdered depMap (fst (classify (resolveTools requested)) @ snd (classify (resolveTools requested)))"
proof -
  have "dependencyOrdered depMap
      (filter phase1Tools (resolveTools requested) @ filter (\<lambda>t. \<not> phase1Tools t) (resolveTools requested))"
    using phase1_closed resolveTools_ordered by (rule dependencyOrdered_partition)
  then show ?thesis by (simp only: classify_filter fst_conv snd_conv)
qed


section \<open>Properties of the configuration append\<close>

lemma strContains_sublist: "strContains s sub \<longleftrightarrow> sublist sub s"
  by (induction s) (auto simp: sublist_Cons_right)

lemma strContains_middle: "strContains b sub \<Longrightarrow> strContains (a @ b @ c) sub"
  unfolding strContains_sublist
  by (meson sublist_append_leftI sublist_append_rightI sublist_order.order_trans sublist_order.order_refl)

lemma occurrences_pos: "strContains s sub \<longleftrightarrow> 0 < occurrences s sub"
  by (induction s) auto

lemma logWrite_fields [simp]:
  "zshrc (logWrite lv st m w) = zshrc w"
  "dryRun (logWrite lv st m w) = dryRun w"
  "zshrcWritable (logWrite lv st m w) = zshrcWritable w"
  "stateData (logWrite lv st m w) = stateData w"
  "stateFile (logWrite lv st m w) = stateFile w"
  "machine (logWrite lv st m w) = machine w"
  "dispatched (logWrite lv st m w) = dispatched w"
  "execd (logWrite lv st m w) = execd w"
  "stderr (logWrite lv st m w) = stderr w"
  "logOpen (logWrite lv st m w) = logOpen w"
  "logPhase (logWrite lv st m w) = logPhase w"
  "forceReinstall (logWrite lv st m w) = forceReinstall w"
  "stateWritable (logWrite lv st m w) = stateWritable w"
  "cachedSSHPublicKey (logWrite lv st m w) = cachedSSHPublicKey w"
  by (simp_all add: logWrite_def)

lemma appendToZshrc_keeps:
  "dryRun (snd (appendToZshrc g b w)) = dryRun w"
  "zshrcWritable (snd (appendToZshrc g b w)) = zshrcWritable w"
  by (simp_all add: appendToZshrc_def logInfo_def)

lemma appendToZshrc_present:
  "fileContains (zshrc w) g \<Longrightarrow> zshrc (snd (appendToZshrc g b w)) = zshrc w"
  by (simp add: appendToZshrc_def logInfo_def)

lemma appendToZshrc_appends:
  assumes "\<not> fileContains (zshrc w) g" "\<not> dryRun w" "zshrcWritable w"
  shows "zshrc (snd (appendToZshrc g b w)) =
           Some ((case zshrc w of None \<Rightarrow> [] | Some data \<Rightarrow> data) @ newline @ b @ newline)"
  using assms by (simp add: appendToZshrc_def logInfo_def)

lemma appendToZshrc_unchanged:
  assumes "fileContains (zshrc w) g \<or> dryRun w \<or> \<not> zshrcWritable w"
  shows "zshrc (snd (appendToZshrc g b w)) = zshrc w"
  using assms by (auto simp: appendToZshrc_def logInfo_def)

lemma appendToZshrc_twice:
  assumes "strContains b g"
  shows "zshrc (snd (appendToZshrc g b (snd (appendToZshrc g b w)))) = zshrc (snd (appendToZshrc g b w))"
proof (cases "fileContains (zshrc w) g \<or> dryRun w \<or> \<not> zshrcWritable w")
  case True
  then have 1: "zshrc (snd (appendToZshrc g b w)) = zshrc w" by (rule appendToZshrc_unchanged)
  with True have "fileContains (zshrc (snd (appendToZshrc g b w))) g \<or> dryRun (snd (appendToZshrc g b w))
      \<or> \<not> zshrcWritable (snd (appendToZshrc g b w))"
    by (simp add: appendToZshrc_keeps)
  then show ?thesis by (rule appendToZshrc_unchanged)
next
  case False
  then have "zshrc (snd (appendToZshrc g b w)) =
           Some ((case zshrc w of None \<Rightarrow> [] | Some data \<Rightarrow> data) @ newline @ b @ newline)"
    by (intro appendToZshrc_appends) auto
  moreover have "strContains ((case zshrc w of None \<Rightarrow> [] | Some data \<Rightarrow> data) @ newline @ b @ newline) g"
    using strContains_middle[OF assms, of "(case zshrc w of None \<Rightarrow> [] | Some data \<Rightarrow> data) @ newline" newline]
    by (simp only: append_assoc)
  ultimately have "fileContains (zshrc (snd (appendToZshrc g b w))) g"
    by (simp only: fileContains_def option.case)
  then show ?thesis by (intro appendToZshrc_unchanged) simp
qed


lemma strContains_homebrew: "strContains homebrewBlock ''# BEGIN: Homebrew''"
  by (simp add: homebrewBlock_def)

section \<open>The claims about the resolver and the phase split\<close>

text \<open>
  Claim C1.  For every acyclic dependency graph \<open>g\<close> and every requested sequence (with
  duplicates, with prerequisites left out), the output of the resolver contains each
  requested tool and each of its transitive prerequisites exactly once and nothing else,
  and every tool of the output stands strictly after all of its direct and transitive
  prerequisites.  \<^verbatim>\<open>resolveTools\<close> is the resolver on the graph \<^verbatim>\<open>depMap\<close>.
\<close>

theorem resolve_once_and_ordered:
  fixes g :: "'a depgraph"
  assumes "acyclic (prereq g)"
  shows "(\<forall>u. (\<exists>t\<in>set requested. (t, u) \<in> (prereq g)\<^sup>*) \<longrightarrow> count_list (resolveWith g requested) u = 1) \<and>
         (\<forall>u. \<not> (\<exists>t\<in>set requested. (t, u) \<in> (prereq g)\<^sup>*) \<longrightarrow> count_list (resolveWith g requested) u = 0) \<and>
         (\<forall>i<length (resolveWith g requested). \<forall>d. (resolveWith g requested ! i, d) \<in> (prereq g)\<^sup>+ \<longrightarrow>
            (\<exists>j<i. resolveWith g requested ! j = d))"
proof -
  let ?out = "resolveWith g requested"
  note s = resolveWith_spec[OF assms, of requested]
  have m: "u \<in> set ?out \<longleftrightarrow> (\<exists>t\<in>set requested. (t, u) \<in> (prereq g)\<^sup>*)" for u
    using s(2) by auto
  have 1: "\<forall>u. (\<exists>t\<in>set requested. (t, u) \<in> (prereq g)\<^sup>*) \<longrightarrow> count_list ?out u = 1"
    using m s(1) by (simp add: count_list_distinct)
  have 2: "\<forall>u. \<not> (\<exists>t\<in>set requested. (t, u) \<in> (prereq g)\<^sup>*) \<longrightarrow> count_list ?out u = 0"
    using m by (simp add: count_list_0_iff)
  have 3: "\<forall>i<length ?out. \<forall>d. (?out ! i, d) \<in> (prereq g)\<^sup>+ \<longrightarrow> (\<exists>j<i. ?out ! j = d)"
    using dependencyOrdered_trancl[OF s(3)] by blast
  from 1 2 3 show ?thesis by blast
qed

theorem resolve_once_and_ordered_witness:
  "acyclic (prereq depMap) \<and>
   resolveTools [toolHopsCLI, toolAllProxy, toolHopsCLI] =
     [toolXcode, toolHomebrew, toolPyenv, toolPython313, toolSpartaPKI, toolHopsCLI, toolAllProxy] \<and>
   count_list (resolveTools [toolHopsCLI, toolAllProxy, toolHopsCLI]) toolHopsCLI = 1"
proof -
  note T = resolve_once_and_ordered[OF acyclic_depMap, of "[toolHopsCLI, toolAllProxy, toolHopsCLI]"]
  have "\<exists>t\<in>set [toolHopsCLI, toolAllProxy, toolHopsCLI]. (t, toolHopsCLI) \<in> (prereq depMap)\<^sup>*"
    by (intro bexI[of _ toolHopsCLI]) simp_all
  with T have "count_list (resolveWith depMap [toolHopsCLI, toolAllProxy, toolHopsCLI]) toolHopsCLI = 1"
    by blast
  with acyclic_depMap resolve_example show ?thesis by (simp only: resolveTools_def simp_thms)
qed

text \<open>
  Claim C9.  Over an acyclic graph the resolver is idempotent: resolving its own output
  gives that output again.
\<close>

theorem resolve_idempotent:
  fixes g :: "'a depgraph"
  assumes "acyclic (prereq g)"
  shows "resolveWith g (resolveWith g requested) = resolveWith g requested"
  using resolveWith_spec[OF assms, of requested] by (simp add: resolveWith_fixpoint)

theorem resolve_idempotent_witness:
  "acyclic (prereq depMap) \<and>
   resolveTools (resolveTools [toolHopsCLI, toolAllProxy, toolHopsCLI]) =
     resolveTools [toolHopsCLI, toolAllProxy, toolHopsCLI]"
  using acyclic_depMap resolve_idempotent[OF acyclic_depMap, of "[toolHopsCLI, toolAllProxy, toolHopsCLI]"]
  by (simp only: resolveTools_def simp_thms)

text \<open>
  Claim C4.  The phase split of a plan puts every tool of the plan in exactly one of the
  two outputs: the public-phase output is the plan restricted to the tools of
  \<^verbatim>\<open>phase1Tools\<close>, the private-phase output is the plan restricted to the others, so the
  two outputs together hold every occurrence of the plan once, share no tool, each keep the
  plan's relative order, and a tool that is not marked public is in the private output.
\<close>

theorem classify_partition:
  "fst (classify plan) = filter phase1Tools plan \<and>
   snd (classify plan) = filter (\<lambda>t. \<not> phase1Tools t) plan \<and>
   mset (fst (classify plan)) + mset (snd (classify plan)) = mset plan \<and>
   set (fst (classify plan)) \<inter> set (snd (classify plan)) = {} \<and>
   subseq (fst (classify plan)) plan \<and> subseq (snd (classify plan)) plan \<and>
   (\<forall>t\<in>set plan. \<not> phase1Tools t \<longrightarrow> t \<in> set (snd (classify plan)) \<and> t \<notin> set (fst (classify plan)))"
  by (auto simp: classify_filter)


theorem classify_partition_witness:
  "toolHopsCLI \<in> set (resolveTools [toolHopsCLI, toolITerm2]) \<and> \<not> phase1Tools toolHopsCLI \<and>
   toolHopsCLI \<in> set (snd (classify (resolveTools [toolHopsCLI, toolITerm2]))) \<and>
   toolHopsCLI \<notin> set (fst (classify (resolveTools [toolHopsCLI, toolITerm2])))"
proof -
  have m: "toolHopsCLI \<in> set (resolveTools [toolHopsCLI, toolITerm2])"
    by (simp add: resolve_example2)
  have n: "\<not> phase1Tools toolHopsCLI" by (simp add: phase1Tools_def)
  from classify_partition[of "resolveTools [toolHopsCLI, toolITerm2]"] m n
  show ?thesis by blast
qed

text \<open>
  Claim C10.  In the static catalog every prerequisite of a public-phase tool is itself a
  public-phase tool.  Hence, for every resolved plan, the public-phase output followed by
  the private-phase output still has every tool after all of its prerequisites, and a
  prerequisite of a public-phase tool is in the public-phase output and not in the
  private-phase one.
\<close>

theorem phase_split_keeps_prerequisites_first:
  "(\<forall>t. phase1Tools t \<longrightarrow> (\<forall>d\<in>set (depsOf depMap t). phase1Tools d)) \<and>
   (\<forall>i<length (fst (classify (resolveTools requested)) @ snd (classify (resolveTools requested))).
      \<forall>d\<in>set (depsOf depMap ((fst (classify (resolveTools requested)) @ snd (classify (resolveTools requested))) ! i)).
        \<exists>j<i. (fst (classify (resolveTools requested)) @ snd (classify (resolveTools requested))) ! j = d) \<and>
   (\<forall>t\<in>set (fst (classify (resolveTools requested))). \<forall>d\<in>set (depsOf depMap t).
        d \<in> set (fst (classify (resolveTools requested))) \<and> d \<notin> set (snd (classify (resolveTools requested))))"
proof (intro conjI allI impI ballI)
  fix t d assume "phase1Tools t" "d \<in> set (depsOf depMap t)"
  then show "phase1Tools d" by (rule phase1_closed)
next
  fix i d
  assume "i < length (fst (classify (resolveTools requested)) @ snd (classify (resolveTools requested)))"
    and "d \<in> set (depsOf depMap ((fst (classify (resolveTools requested)) @ snd (classify (resolveTools requested))) ! i))"
  with classify_ordered
  show "\<exists>j<i. (fst (classify (resolveTools requested)) @ snd (classify (resolveTools requested))) ! j = d"
    by (rule dependencyOrdered_before)
next
  fix t d
  assume t: "t \<in> set (fst (classify (resolveTools requested)))" and d: "d \<in> set (depsOf depMap t)"
  from t have p: "phase1Tools t" and m: "t \<in> set (resolveTools requested)"
    by (simp_all add: classify_filter)
  from p d have pd: "phase1Tools d" by (rule phase1_closed)
  from d have "(t, d) \<in> (prereq depMap)\<^sup>*" by (auto simp: prereq_def)
  with resolveTools_ordered have "d \<in> set (resolveTools requested)" using m by (rule dependencyOrdered_closed)
  with pd show "d \<in> set (fst (classify (resolveTools requested)))" by (simp add: classify_filter)
next
  fix t d
  assume t: "t \<in> set (fst (classify (resolveTools requested)))" and d: "d \<in> set (depsOf depMap t)"
  from t have p: "phase1Tools t" by (simp add: classify_filter)
  from p d have pd: "phase1Tools d" by (rule phase1_closed)
  then show "d \<notin> set (snd (classify (resolveTools requested)))" by (simp add: classify_filter)
qed


theorem phase_split_keeps_prerequisites_first_witness:
  "phase1Tools toolHomebrew \<and> toolXcode \<in> set (depsOf depMap toolHomebrew) \<and> phase1Tools toolXcode \<and>
   toolHomebrew \<in> set (fst (classify (resolveTools [toolHopsCLI, toolITerm2]))) \<and>
   toolXcode \<in> set (fst (classify (resolveTools [toolHopsCLI, toolITerm2]))) \<and>
   toolXcode \<notin> set (snd (classify (resolveTools [toolHopsCLI, toolITerm2])))"
proof -
  have p: "phase1Tools toolHomebrew" by (simp add: phase1Tools_def)
  have d: "toolXcode \<in> set (depsOf depMap toolHomebrew)" by (simp add: depsOf_def depMap_def)
  have m: "toolHomebrew \<in> set (fst (classify (resolveTools [toolHopsCLI, toolITerm2])))"
    by (simp add: resolve_example2 classify_filter phase1Tools_def)
  from phase_split_keeps_prerequisites_first[of "[toolHopsCLI, toolITerm2]"] p d m
  show ?thesis by blast
qed

section \<open>The claim about the guard-marked configuration append\<close>

text \<open>
  Claim C5, as amended.  For every guard string and every block that contains it, a second
  call of \<^verbatim>\<open>appendToZshrc\<close> on the file that a first call left leaves the file
  unchanged, and so does every further call.  Unless dry-run mode is on or the file cannot
  be opened for appending, the file that the first call left contains the guard string:
  it is the file as it was when the guard was in it already, and otherwise the old content
  followed by a newline, the block and a newline.  How often the guard then occurs is how
  often it occurs in that text; it need not be once.
\<close>

theorem appendToZshrc_idempotent:
  fixes w :: "'m world"
  assumes "strContains block guardString"
  shows "zshrc (snd (appendToZshrc guardString block (snd (appendToZshrc guardString block w))))
           = zshrc (snd (appendToZshrc guardString block w)) \<and>
         zshrc (((\<lambda>v. snd (appendToZshrc guardString block v)) ^^ Suc n) w)
           = zshrc (snd (appendToZshrc guardString block w)) \<and>
         (fileContains (zshrc (snd (appendToZshrc guardString block w))) guardString \<or>
            dryRun w \<or> \<not> zshrcWritable w) \<and>
         (fileContains (zshrc w) guardString \<or> dryRun w \<or> \<not> zshrcWritable w \<or>
            zshrc (snd (appendToZshrc guardString block w)) =
              Some ((case zshrc w of None \<Rightarrow> [] | Some data \<Rightarrow> data) @ newline @ block @ newline))"
proof -
  let ?f = "\<lambda>v. snd (appendToZshrc guardString block v)"
  let ?settled = "\<lambda>v. fileContains (zshrc v) guardString \<or> dryRun v \<or> \<not> zshrcWritable v"
  have 1: "zshrc (?f (?f w)) = zshrc (?f w)" using assms by (rule appendToZshrc_twice)
  have app: "zshrc (?f w) = Some ((case zshrc w of None \<Rightarrow> [] | Some data \<Rightarrow> data) @ newline @ block @ newline)"
    if "\<not> ?settled w"
    using that by (intro appendToZshrc_appends) auto
  have s1: "?settled (?f w)"
  proof (cases "?settled w")
    case True
    then show ?thesis by (simp add: appendToZshrc_unchanged appendToZshrc_keeps)
  next
    case False
    have "strContains ((case zshrc w of None \<Rightarrow> [] | Some data \<Rightarrow> data) @ newline @ block @ newline) guardString"
      using strContains_middle[OF assms, of "(case zshrc w of None \<Rightarrow> [] | Some data \<Rightarrow> data) @ newline" newline]
      by (simp only: append_assoc)
    with app[OF False] show ?thesis by (simp only: fileContains_def option.case simp_thms)
  qed
  have keep: "?settled v \<Longrightarrow> ?settled (?f v) \<and> zshrc (?f v) = zshrc v" for v :: "'m world"
    by (simp add: appendToZshrc_unchanged appendToZshrc_keeps)
  have "?settled ((?f ^^ k) (?f w)) \<and> zshrc ((?f ^^ k) (?f w)) = zshrc (?f w)" for k
  proof (induction k)
    case 0
    show ?case using s1 by simp
  next
    case (Suc k)
    define x where "x = (?f ^^ k) (?f w)"
    from Suc have x: "?settled x" "zshrc x = zshrc (?f w)" unfolding x_def by blast+
    from keep[OF x(1)] have a: "?settled (?f x)" and "zshrc (?f x) = zshrc x" by blast+
    from this(2) x(2) have b: "zshrc (?f x) = zshrc (?f w)" by (rule trans)
    have "(?f ^^ Suc k) (?f w) = ?f x" unfolding x_def by simp
    with a b show ?case by (simp only: simp_thms)
  qed
  then have 2: "zshrc ((?f ^^ Suc n) w) = zshrc (?f w)" by (simp add: funpow_Suc_right del: funpow.simps)
  have 3: "fileContains (zshrc (?f w)) guardString \<or> dryRun w \<or> \<not> zshrcWritable w"
    using s1 by (auto simp: appendToZshrc_keeps)
  have 4: "fileContains (zshrc w) guardString \<or> dryRun w \<or> \<not> zshrcWritable w \<or>
      zshrc (?f w) = Some ((case zshrc w of None \<Rightarrow> [] | Some data \<Rightarrow> data) @ newline @ block @ newline)"
    using app by blast
  from 1 2 3 4 show ?thesis by blast
qed

theorem appendToZshrc_idempotent_witness:
  "strContains homebrewBlock ''# BEGIN: Homebrew'' \<and>
   zshrc (snd (appendToZshrc ''# BEGIN: Homebrew'' homebrewBlock freshWorld)) =
     Some (newline @ homebrewBlock @ newline) \<and>
   zshrc (snd (appendToZshrc ''# BEGIN: Homebrew'' homebrewBlock
            (snd (appendToZshrc ''# BEGIN: Homebrew'' homebrewBlock freshWorld)))) =
     Some (newline @ homebrewBlock @ newline)"
proof -
  have a: "zshrc (snd (appendToZshrc ''# BEGIN: Homebrew'' homebrewBlock freshWorld)) =
     Some (newline @ homebrewBlock @ newline)"
    by (simp add: appendToZshrc_def fileContains_def freshWorld_def logInfo_def)
  from appendToZshrc_idempotent[OF strContains_homebrew, of freshWorld 0] a strContains_homebrew
  show ?thesis by (simp only: simp_thms)
qed


text \<open>
  The claim as stated fails where it says that the file holds the marker exactly once:
  with the guard \<^verbatim>\<open>x\<close> and the block \<^verbatim>\<open>xx\<close>, which contains the guard, on a workstation
  without a \<^verbatim>\<open>~/.zshrc\<close> and outside dry-run mode, the file after two calls is a
  newline, \<^verbatim>\<open>xx\<close> and a newline, in which the guard starts at two positions.
\<close>

theorem appendToZshrc_marker_counterexample:
  "strContains ''xx'' ''x'' \<and>
   zshrc (snd (appendToZshrc ''x'' ''xx'' (snd (appendToZshrc ''x'' ''xx'' freshWorld)))) =
     Some (newline @ ''xx'' @ newline) \<and>
   occurrences (newline @ ''xx'' @ newline) ''x'' = 2"
  by (simp add: appendToZshrc_def fileContains_def freshWorld_def logInfo_def logWrite_def)


end
